theory Spec2Isabelle
  imports Main "HOL-Library.Char_ord" "HOL-Library.List_Lexorder" "HOL-Library.Multiset"
begin

section \<open>The fixed-versions service\<close>

text \<open>
  The service answers \<^verbatim>\<open>GET /fixed-versions\<close>: for a package name and a list of
  ecosystems it posts one query per ecosystem to the OSV API, reads the \<^verbatim>\<open>fixed\<close>
  field of every event of every answer, merges the values into a set and returns them
  sorted. Python strings are modelled as \<^typ>\<open>string\<close>, read as UTF-8: the order of
  \<^typ>\<open>string\<close> is then the lexicographic order of Python's \<^verbatim>\<open>str\<close>.
\<close>

subsection \<open>Data model\<close>

text \<open>
  The answer of the OSV API, with the shape the extraction reads:
  \<^verbatim>\<open>{vulns: [{affected: [{ranges: [{events: [{fixed: str}]}]}]}]}\<close>.
  Every level is a dictionary; the one key the code reads at that level is a field of
  option type, \<open>None\<close> when the dictionary has no such key. For \<^verbatim>\<open>fixed\<close>,
  \<open>None\<close> is also a JSON null: \<^verbatim>\<open>event.get('fixed')\<close> is Python's None in both cases.
  The model covers the answers of this shape, the one the source's annotations and the
  specification's data model give; a value of another JSON type under one of the five
  keys is outside it.
\<close>

record event =
  fixed :: "string option"

record version_range =
  events :: "event list option"

record affected_package =
  ranges :: "version_range list option"

record vuln =
  affected :: "affected_package list option"

record osv_data =
  vulns :: "vuln list option"

text \<open>\<^verbatim>\<open>class OSVQuery(BaseModel)\<close>; \<^verbatim>\<open>package\<close> is a dict, kept as an association list.\<close>

record OSVQuery =
  commit :: "string option"
  version :: "string option"
  package :: "(string \<times> string) list"
  pageToken :: "string option"

text \<open>\<^verbatim>\<open>class FixedVersionsResponse(BaseModel)\<close>\<close>

record FixedVersionsResponse =
  name :: string
  versions :: "string list"
  timestamp :: string

text \<open>
  What \<^verbatim>\<open>client.post\<close> gives back: a status code and a body, \<open>None\<close> when the body
  is not JSON.
\<close>

record response =
  status_code :: nat
  json_body :: "osv_data option"

text \<open>
  The exceptions that can travel through the handler: the three that
  \<^verbatim>\<open>query_osv_api\<close> can raise (the transport's, \<^verbatim>\<open>raise_for_status\<close>'s and
  \<^verbatim>\<open>response.json()\<close>'s) and the handler's own \<^verbatim>\<open>HTTPException\<close>.
\<close>

datatype error =
    RequestError
  | HTTPStatusError nat
  | JSONDecodeError
  | HTTPException nat string

text \<open>
  The outbound client is a parameter: \<open>client url payload\<close> is the result of
  \<^verbatim>\<open>await client.post(url, json=payload)\<close>, \<open>None\<close> when the transport raises.
  A computation that uses the client returns the list of the posts it submitted, in
  order, next to its outcome.
\<close>

type_synonym client = "string \<Rightarrow> OSVQuery \<Rightarrow> response option"

type_synonym 'a io = "(string \<times> OSVQuery) list \<times> (error + 'a)"

subsection \<open>Extraction\<close>

text \<open>\<^verbatim>\<open>d.get(key, default)\<close> on the optional field of a level.\<close>

definition get_default :: "'a option \<Rightarrow> 'a \<Rightarrow> 'a" where
  "get_default v d = (case v of None \<Rightarrow> d | Some x \<Rightarrow> x)"

text \<open>
  The four nested loops of \<^verbatim>\<open>extract_fixed_versions\<close>, innermost first; the list is
  the sequence of yielded values. \<^verbatim>\<open>if fixed_version:\<close> is false for None and for
  the empty string.
\<close>

fun events_loop :: "event list \<Rightarrow> string list" where
  "events_loop [] = []"
| "events_loop (ev # rest) =
     (case fixed ev of
        None \<Rightarrow> events_loop rest
      | Some fixed_version \<Rightarrow>
          if fixed_version \<noteq> [] then fixed_version # events_loop rest
          else events_loop rest)"

fun ranges_loop :: "version_range list \<Rightarrow> string list" where
  "ranges_loop [] = []"
| "ranges_loop (r # rest) = events_loop (get_default (events r) []) @ ranges_loop rest"

fun affected_loop :: "affected_package list \<Rightarrow> string list" where
  "affected_loop [] = []"
| "affected_loop (a # rest) = ranges_loop (get_default (ranges a) []) @ affected_loop rest"

fun vulns_loop :: "vuln list \<Rightarrow> string list" where
  "vulns_loop [] = []"
| "vulns_loop (v # rest) = affected_loop (get_default (affected v) []) @ vulns_loop rest"

definition extract_fixed_versions :: "osv_data \<Rightarrow> string list" where
  "extract_fixed_versions data = vulns_loop (get_default (vulns data) [])"

text \<open>
  The extraction as the specification words it: every event reached through the four
  levels, kept when its \<^verbatim>\<open>fixed\<close> value is a non-empty string.
\<close>

definition all_events :: "osv_data \<Rightarrow> event list" where
  "all_events data =
     concat (map (\<lambda>r. get_default (events r) [])
       (concat (map (\<lambda>a. get_default (ranges a) [])
         (concat (map (\<lambda>v. get_default (affected v) [])
           (get_default (vulns data) []))))))"

definition nonempty_fixed_values :: "osv_data \<Rightarrow> string list" where
  "nonempty_fixed_values data =
     map (\<lambda>ev. the (fixed ev))
       (filter (\<lambda>ev. fixed ev \<noteq> None \<and> fixed ev \<noteq> Some []) (all_events data))"

text \<open>
  Writing every absent key out as the empty list that \<^verbatim>\<open>get\<close> defaults to, at each
  of the four levels.
\<close>

definition fill_range :: "version_range \<Rightarrow> version_range" where
  "fill_range r = r\<lparr>events := Some (get_default (events r) [])\<rparr>"

definition fill_affected :: "affected_package \<Rightarrow> affected_package" where
  "fill_affected a = a\<lparr>ranges := Some (map fill_range (get_default (ranges a) []))\<rparr>"

definition fill_vuln :: "vuln \<Rightarrow> vuln" where
  "fill_vuln v = v\<lparr>affected := Some (map fill_affected (get_default (affected v) []))\<rparr>"

definition fill_data :: "osv_data \<Rightarrow> osv_data" where
  "fill_data data = data\<lparr>vulns := Some (map fill_vuln (get_default (vulns data) []))\<rparr>"

text \<open>
  An answer with a vulnerability that has no \<^verbatim>\<open>affected\<close>, an affected package with no
  \<^verbatim>\<open>ranges\<close>, a range with no \<^verbatim>\<open>events\<close>, and events whose \<^verbatim>\<open>fixed\<close> is absent,
  empty and present.
\<close>

definition sample_data :: osv_data where
  "sample_data =
     \<lparr>vulns = Some
        [\<lparr>affected = Some
            [\<lparr>ranges = Some
                [\<lparr>events = Some [\<lparr>fixed = None\<rparr>, \<lparr>fixed = Some ''1.2''\<rparr>, \<lparr>fixed = Some ''''\<rparr>]\<rparr>,
                 \<lparr>events = None\<rparr>]\<rparr>,
             \<lparr>ranges = None\<rparr>]\<rparr>,
         \<lparr>affected = None\<rparr>,
         \<lparr>affected = Some [\<lparr>ranges = Some [\<lparr>events = Some [\<lparr>fixed = Some ''0.9''\<rparr>]\<rparr>]\<rparr>]\<rparr>]\<rparr>"


subsection \<open>The query client\<close>

definition OSV_API_URL :: string where
  "OSV_API_URL = ''https://api.osv.dev/v1/query''"

text \<open>
  Modelled from the spec: \<^verbatim>\<open>raise_for_status\<close> belongs to the HTTP client library,
  which is not among the sources; the specification has the call fail on every
  non-success (non-2xx) status, so it raises unless the status is 200 to 299.
\<close>

definition is_success :: "nat \<Rightarrow> bool" where
  "is_success code = (200 \<le> code \<and> code \<le> 299)"

definition query_osv_api :: "client \<Rightarrow> OSVQuery \<Rightarrow> osv_data io" where
  "query_osv_api client query_payload =
     ([(OSV_API_URL, query_payload)],
      (case client OSV_API_URL query_payload of
         None \<Rightarrow> Inl RequestError
       | Some resp \<Rightarrow>
           if \<not> is_success (status_code resp) then Inl (HTTPStatusError (status_code resp))
           else (case json_body resp of
                   None \<Rightarrow> Inl JSONDecodeError
                 | Some data \<Rightarrow> Inr data)))"

definition make_query :: "string \<Rightarrow> string \<Rightarrow> OSVQuery" where
  "make_query package_name ecosystem =
     \<lparr>commit = None, version = None,
      package = [(''name'', package_name), (''ecosystem'', ecosystem)],
      pageToken = None\<rparr>"

definition fetch_fixed_versions_for_ecosystem ::
    "client \<Rightarrow> string \<Rightarrow> string \<Rightarrow> string list io" where
  "fetch_fixed_versions_for_ecosystem client package_name ecosystem =
     (case query_osv_api client (make_query package_name ecosystem) of
        (posts, Inl e) \<Rightarrow> (posts, Inl e)
      | (posts, Inr data) \<Rightarrow> (posts, Inr (extract_fixed_versions data)))"

subsection \<open>The aggregator\<close>

text \<open>
  \<^verbatim>\<open>asyncio.gather(*tasks)\<close>: every task is started, so every post is submitted; the
  results come back in the order of the tasks, and when a task raises, \<open>gather\<close> raises.
  Which exception surfaces when several tasks raise depends on the schedule; the model
  takes the first in task order, and no theorem below depends on that choice.
\<close>

fun gather :: "'a io list \<Rightarrow> 'a list io" where
  "gather [] = ([], Inr [])"
| "gather ((posts, r) # tasks) =
     (case gather tasks of
        (posts', rs) \<Rightarrow>
          (posts @ posts',
           (case r of
              Inl e \<Rightarrow> Inl e
            | Inr x \<Rightarrow> (case rs of Inl e \<Rightarrow> Inl e | Inr xs \<Rightarrow> Inr (x # xs)))))"

text \<open>The loop that appends every version of every result to \<^verbatim>\<open>fixed_versions\<close>.\<close>

fun collect :: "string list list \<Rightarrow> string list \<Rightarrow> string list" where
  "collect [] fixed_versions = fixed_versions"
| "collect (result # results) fixed_versions = collect results (fixed_versions @ result)"

text \<open>
  \<^verbatim>\<open>list(set(fixed_versions))\<close> lists the distinct versions in an order that Python
  does not fix (string hashes change from one process to the next), so the returned
  value is modelled as the set itself.
\<close>

definition fetch_fixed_versions :: "client \<Rightarrow> string \<Rightarrow> string list \<Rightarrow> string set io" where
  "fetch_fixed_versions client package_name ecosystems =
     (case gather (map (fetch_fixed_versions_for_ecosystem client package_name) ecosystems) of
        (posts, Inl e) \<Rightarrow> (posts, Inl e)
      | (posts, Inr results) \<Rightarrow> (posts, Inr (set (collect results []))))"

subsection \<open>The request handler\<close>

text \<open>
  \<open>now\<close> is \<^verbatim>\<open>datetime.now().isoformat()\<close>. \<^verbatim>\<open>sorted\<close> of a list of the distinct
  elements of a set is the sorted list of that set, whatever the order of the list
  (lemma \<open>sort_enumeration\<close> below).
\<close>

definition get_fixed_versions ::
    "string \<Rightarrow> client \<Rightarrow> string \<Rightarrow> string list \<Rightarrow> FixedVersionsResponse io" where
  "get_fixed_versions now client nm ecosystems =
     (case fetch_fixed_versions client nm ecosystems of
        (posts, Inl e) \<Rightarrow> (posts, Inl e)
      | (posts, Inr fixed_versions) \<Rightarrow>
          if fixed_versions = {}
          then (posts, Inl (HTTPException 404 ''No fixed versions found''))
          else (posts, Inr \<lparr>name = nm,
                            versions = sorted_list_of_set fixed_versions,
                            timestamp = now\<rparr>))"

text \<open>
  The request as the route receives it: each query parameter is present or not. The
  response is a success with its body, the validation error (status 422), an error with
  a status and a detail, or the generic server error (status 500).
\<close>

record request =
  query_name :: "string option"
  query_ecosystems :: "string list option"

datatype http_response =
    Success FixedVersionsResponse
  | ValidationError
  | ErrorDetail nat string
  | InternalServerError

fun status_of :: "http_response \<Rightarrow> nat" where
  "status_of (Success _) = 200"
| "status_of ValidationError = 422"
| "status_of (ErrorDetail code _) = code"
| "status_of InternalServerError = 500"

text \<open>
  Modelled from the spec: the web framework that turns the handler's outcome into a
  response is not among the sources. It answers an \<^verbatim>\<open>HTTPException\<close> with its status
  and detail; any other exception is not mapped and surfaces as the generic server error.
\<close>

fun render :: "error + FixedVersionsResponse \<Rightarrow> http_response" where
  "render (Inr resp) = Success resp"
| "render (Inl (HTTPException code detail)) = ErrorDetail code detail"
| "render (Inl _) = InternalServerError"

text \<open>
  Modelled from the spec: the web framework that serves the route is not among the
  sources; only the route's declaration is. As declared,
  \<^verbatim>\<open>name: str = Query(..., min_length=1)\<close> is required and has at least one character,
  and \<^verbatim>\<open>ecosystems: List[str] = Query(["Ubuntu"])\<close> defaults to \<^verbatim>\<open>["Ubuntu"]\<close>. The
  framework validates the parameters and rejects a missing or empty name before the
  handler runs, so before any outbound call; otherwise it calls the handler.
\<close>

definition endpoint ::
    "string \<Rightarrow> client \<Rightarrow> request \<Rightarrow> (string \<times> OSVQuery) list \<times> http_response" where
  "endpoint now client req =
     (case query_name req of
        None \<Rightarrow> ([], ValidationError)
      | Some nm \<Rightarrow>
          if length nm < 1 then ([], ValidationError)
          else (case get_fixed_versions now client nm
                       (get_default (query_ecosystems req) [''Ubuntu'']) of
                  (posts, r) \<Rightarrow> (posts, render r)))"

subsection \<open>Queries, answers and sample inputs\<close>

text \<open>
  What the outbound call for one ecosystem does: it is answered with a body (a success
  status and a JSON body), or it fails in transport or with a status that is no success.
\<close>

definition answers :: "client \<Rightarrow> string \<Rightarrow> string \<Rightarrow> osv_data \<Rightarrow> bool" where
  "answers client nm ecosystem data =
     (case client OSV_API_URL (make_query nm ecosystem) of
        None \<Rightarrow> False
      | Some resp \<Rightarrow> is_success (status_code resp) \<and> json_body resp = Some data)"

definition query_fails :: "client \<Rightarrow> string \<Rightarrow> string \<Rightarrow> bool" where
  "query_fails client nm ecosystem =
     (case client OSV_API_URL (make_query nm ecosystem) of
        None \<Rightarrow> True
      | Some resp \<Rightarrow> \<not> is_success (status_code resp))"

text \<open>The exceptions of the outbound call, as opposed to the handler's own.\<close>

definition upstream_error :: "error \<Rightarrow> bool" where
  "upstream_error e = (case e of HTTPException _ _ \<Rightarrow> False | _ \<Rightarrow> True)"


text \<open>The union, over the requested ecosystems, of the versions extracted from each answer.\<close>

definition merged_fixed_versions :: "(string \<Rightarrow> osv_data) \<Rightarrow> string list \<Rightarrow> string set" where
  "merged_fixed_versions answer ecosystems =
     (\<Union>eco \<in> set ecosystems. set (extract_fixed_versions (answer eco)))"

text \<open>
  Two answers, with the fixed versions 2.1, 1.0 and 1.0, 3.0, and a client that serves
  them for Ubuntu and Debian, fails with status 503 for npm and in transport for Hex, and
  answers with no vulnerabilities anywhere else.
\<close>

definition data_a :: osv_data where
  "data_a =
     \<lparr>vulns = Some
        [\<lparr>affected = Some
            [\<lparr>ranges = Some [\<lparr>events = Some [\<lparr>fixed = None\<rparr>, \<lparr>fixed = Some ''2.1''\<rparr>]\<rparr>]\<rparr>]\<rparr>,
         \<lparr>affected = Some
            [\<lparr>ranges = Some [\<lparr>events = Some [\<lparr>fixed = Some ''1.0''\<rparr>]\<rparr>]\<rparr>]\<rparr>]\<rparr>"

definition data_b :: osv_data where
  "data_b =
     \<lparr>vulns = Some
        [\<lparr>affected = Some
            [\<lparr>ranges = Some
                [\<lparr>events = Some [\<lparr>fixed = Some ''1.0''\<rparr>]\<rparr>,
                 \<lparr>events = Some [\<lparr>fixed = Some ''3.0''\<rparr>, \<lparr>fixed = Some ''1.0''\<rparr>]\<rparr>]\<rparr>]\<rparr>]\<rparr>"

definition sample_answer :: "string \<Rightarrow> osv_data" where
  "sample_answer ecosystem =
     (if ecosystem = ''Ubuntu'' then data_a
      else if ecosystem = ''Debian'' then data_b
      else \<lparr>vulns = None\<rparr>)"

definition sample_client :: client where
  "sample_client url q =
     (if url \<noteq> OSV_API_URL then None
      else (case map_of (package q) ''ecosystem'' of
              None \<Rightarrow> None
            | Some ecosystem \<Rightarrow>
                if ecosystem = ''npm'' then Some \<lparr>status_code = 503, json_body = None\<rparr>
                else if ecosystem = ''Hex'' then None
                else Some \<lparr>status_code = 200, json_body = Some (sample_answer ecosystem)\<rparr>))"


section \<open>Properties of the extraction\<close>

lemma events_loop_filter:
  "events_loop es =
     map (\<lambda>ev. the (fixed ev)) (filter (\<lambda>ev. fixed ev \<noteq> None \<and> fixed ev \<noteq> Some []) es)"
  by (induction es) (auto split: option.splits)

lemma events_loop_append: "events_loop (es @ es') = events_loop es @ events_loop es'"
  by (simp add: events_loop_filter)

lemma ranges_loop_concat:
  "ranges_loop rs = events_loop (concat (map (\<lambda>r. get_default (events r) []) rs))"
  by (induction rs) (simp_all add: events_loop_append)

lemma affected_loop_concat:
  "affected_loop as = ranges_loop (concat (map (\<lambda>a. get_default (ranges a) []) as))"
proof (induction as)
  case Nil
  show ?case by simp
next
  case (Cons a as)
  then show ?case by (simp add: ranges_loop_concat events_loop_append)
qed

lemma vulns_loop_concat:
  "vulns_loop vs = affected_loop (concat (map (\<lambda>v. get_default (affected v) []) vs))"
proof (induction vs)
  case Nil
  show ?case by simp
next
  case (Cons v vs)
  then show ?case
    by (simp add: affected_loop_concat ranges_loop_concat events_loop_append)
qed

lemma extract_is_nonempty_fixed_values:
  "extract_fixed_versions data = nonempty_fixed_values data"
  by (simp add: extract_fixed_versions_def nonempty_fixed_values_def all_events_def
      vulns_loop_concat affected_loop_concat ranges_loop_concat events_loop_filter)

lemma ranges_loop_fill: "ranges_loop (map fill_range rs) = ranges_loop rs"
  by (induction rs) (simp_all add: fill_range_def get_default_def)

lemma affected_loop_fill: "affected_loop (map fill_affected as) = affected_loop as"
  by (induction as) (simp_all add: fill_affected_def get_default_def ranges_loop_fill)

lemma vulns_loop_fill: "vulns_loop (map fill_vuln vs) = vulns_loop vs"
  by (induction vs) (simp_all add: fill_vuln_def get_default_def affected_loop_fill)

lemma ranges_loop_append: "ranges_loop (rs @ rs') = ranges_loop rs @ ranges_loop rs'"
  by (induction rs) simp_all

lemma affected_loop_append: "affected_loop (as @ as') = affected_loop as @ affected_loop as'"
  by (induction as) simp_all

lemma vulns_loop_append: "vulns_loop (vs @ vs') = vulns_loop vs @ vulns_loop vs'"
  by (induction vs) simp_all

text \<open>
  C3: on every answer the extraction yields exactly the non-empty \<^verbatim>\<open>fixed\<close> values of
  the events reached through vulns, affected, ranges and events, in traversal order and
  with their multiplicity: a value is yielded if and only if it is non-empty and is the
  \<^verbatim>\<open>fixed\<close> of such an event; the empty string is never yielded; and an event whose
  \<^verbatim>\<open>fixed\<close> is absent or empty leaves the yielded sequence as it is without that event.
  The result is a plain list: the traversal has no failing branch.
\<close>

theorem extract_fixed_versions_exact:
  "extract_fixed_versions data = nonempty_fixed_values data
   \<and> (v \<in> set (extract_fixed_versions data) \<longleftrightarrow>
        v \<noteq> [] \<and> (\<exists>ev \<in> set (all_events data). fixed ev = Some v))
   \<and> [] \<notin> set (extract_fixed_versions data)
   \<and> (fixed ev = None \<or> fixed ev = Some [] \<longrightarrow>
        events_loop (es @ ev # es') = events_loop (es @ es'))"
proof -
  have eq: "extract_fixed_versions data = nonempty_fixed_values data"
    by (rule extract_is_nonempty_fixed_values)
  have mem: "v \<in> set (nonempty_fixed_values data) \<longleftrightarrow>
      v \<noteq> [] \<and> (\<exists>ev \<in> set (all_events data). fixed ev = Some v)"
    unfolding nonempty_fixed_values_def by force
  have nonempty: "[] \<notin> set (nonempty_fixed_values data)"
    unfolding nonempty_fixed_values_def by force
  have skip: "fixed ev = None \<or> fixed ev = Some [] \<longrightarrow>
      events_loop (es @ ev # es') = events_loop (es @ es')"
    by (auto simp: events_loop_filter)
  from eq mem nonempty skip show ?thesis by simp
qed

theorem extract_fixed_versions_exact_witness:
  "extract_fixed_versions sample_data = [''1.2'', ''0.9'']
   \<and> nonempty_fixed_values sample_data = [''1.2'', ''0.9'']
   \<and> ''1.2'' \<in> set (extract_fixed_versions sample_data)
   \<and> events_loop ([\<lparr>fixed = Some ''1.2''\<rparr>] @ \<lparr>fixed = None\<rparr> # [\<lparr>fixed = Some ''0.9''\<rparr>])
       = events_loop ([\<lparr>fixed = Some ''1.2''\<rparr>] @ [\<lparr>fixed = Some ''0.9''\<rparr>])"
  using extract_fixed_versions_exact [of sample_data "''1.2''" "\<lparr>fixed = None\<rparr>"
      "[\<lparr>fixed = Some ''1.2''\<rparr>]" "[\<lparr>fixed = Some ''0.9''\<rparr>]"]
  by (simp add: sample_data_def extract_fixed_versions_def nonempty_fixed_values_def
      all_events_def get_default_def)

text \<open>
  C10: a dictionary that lacks \<^verbatim>\<open>vulns\<close>, \<^verbatim>\<open>affected\<close>, \<^verbatim>\<open>ranges\<close> or \<^verbatim>\<open>events\<close>
  behaves as if the key held the empty list: writing the empty lists out changes nothing,
  an answer without \<^verbatim>\<open>vulns\<close> yields nothing, and a vulnerability, affected package or
  range that lacks its key contributes nothing to the loop it is in. The extraction is a
  total function into lists, so no input makes it fail.
\<close>

theorem extract_missing_keys:
  "extract_fixed_versions (fill_data data) = extract_fixed_versions data
   \<and> (vulns data = None \<longrightarrow> extract_fixed_versions data = [])
   \<and> (affected v = None \<longrightarrow> vulns_loop (vs @ v # vs') = vulns_loop (vs @ vs'))
   \<and> (ranges a = None \<longrightarrow> affected_loop (as @ a # as') = affected_loop (as @ as'))
   \<and> (events r = None \<longrightarrow> ranges_loop (rs @ r # rs') = ranges_loop (rs @ rs'))"
proof -
  have "extract_fixed_versions (fill_data data) = extract_fixed_versions data"
    by (simp add: extract_fixed_versions_def fill_data_def vulns_loop_fill get_default_def)
  moreover have "vulns data = None \<longrightarrow> extract_fixed_versions data = []"
    by (simp add: extract_fixed_versions_def get_default_def)
  moreover have "affected v = None \<longrightarrow> vulns_loop (vs @ v # vs') = vulns_loop (vs @ vs')"
    by (simp add: vulns_loop_append get_default_def)
  moreover have "ranges a = None \<longrightarrow> affected_loop (as @ a # as') = affected_loop (as @ as')"
    by (simp add: affected_loop_append get_default_def)
  moreover have "events r = None \<longrightarrow> ranges_loop (rs @ r # rs') = ranges_loop (rs @ rs')"
    by (simp add: ranges_loop_append get_default_def)
  ultimately show ?thesis by simp
qed

theorem extract_missing_keys_witness:
  "extract_fixed_versions (fill_data sample_data) = [''1.2'', ''0.9'']
   \<and> extract_fixed_versions sample_data = [''1.2'', ''0.9'']
   \<and> extract_fixed_versions \<lparr>vulns = None\<rparr> = []
   \<and> vulns_loop ([] @ \<lparr>affected = None\<rparr> # []) = []
   \<and> affected_loop ([] @ \<lparr>ranges = None\<rparr> # []) = []
   \<and> ranges_loop ([] @ \<lparr>events = None\<rparr> # []) = []"
  using extract_missing_keys [of sample_data "\<lparr>affected = None\<rparr>" "[]" "[]"
      "\<lparr>ranges = None\<rparr>" "[]" "[]" "\<lparr>events = None\<rparr>" "[]" "[]"]
    extract_missing_keys [of "\<lparr>vulns = None\<rparr>"]
  by (simp add: sample_data_def extract_fixed_versions_def get_default_def)

section \<open>Properties of the aggregator and the handler\<close>

lemma collect_concat: "collect results acc = acc @ concat results"
  by (induction results arbitrary: acc) simp_all

lemma gather_posts: "fst (gather tasks) = concat (map fst tasks)"
  by (induction tasks) (auto split: prod.splits)

lemma gather_Inr: "snd (gather tasks) = Inr xs \<longleftrightarrow> map snd tasks = map Inr xs"
proof (induction tasks arbitrary: xs)
  case Nil
  show ?case by auto
next
  case (Cons t tasks)
  obtain posts r where t: "t = (posts, r)" by (cases t)
  obtain posts' rs where g: "gather tasks = (posts', rs)" by (cases "gather tasks")
  show ?case
  proof (cases r)
    case (Inl e)
    with t g show ?thesis by auto
  next
    case (Inr x)
    show ?thesis
    proof (cases rs)
      case (Inl e)
      with Cons.IH g have "\<And>ys. map snd tasks \<noteq> map Inr ys" by auto
      with t g Inr Inl show ?thesis by (cases xs) auto
    next
      case inner: (Inr ys)
      with Cons.IH g have "map snd tasks = map Inr ys" by auto
      moreover have "\<And>zs. map snd tasks = map Inr zs \<Longrightarrow> zs = ys"
        using Cons.IH g inner by auto
      ultimately show ?thesis using t g Inr inner by (cases xs) auto
    qed
  qed
qed

lemma gather_Inl: "snd (gather tasks) = Inl e \<Longrightarrow> \<exists>t \<in> set tasks. snd t = Inl e"
  by (induction tasks arbitrary: e) (auto split: prod.splits sum.splits)

lemma gather_isl: "isl (snd (gather tasks)) \<longleftrightarrow> (\<exists>t \<in> set tasks. isl (snd t))"
proof (induction tasks)
  case Nil
  show ?case by simp
next
  case (Cons t tasks)
  obtain posts r where t: "t = (posts, r)" by (cases t)
  obtain posts' rs where g: "gather tasks = (posts', rs)" by (cases "gather tasks")
  from Cons.IH g have "isl rs \<longleftrightarrow> (\<exists>t \<in> set tasks. isl (snd t))" by simp
  with t g show ?case by (cases r; cases rs) auto
qed

lemma gather_fails: "\<exists>t \<in> set tasks. isl (snd t) \<Longrightarrow> isl (snd (gather tasks))"
  by (simp add: gather_isl)

lemma fetch_result:
  "snd (fetch_fixed_versions client nm ecos) =
     (case snd (gather (map (fetch_fixed_versions_for_ecosystem client nm) ecos)) of
        Inl e \<Rightarrow> Inl e
      | Inr results \<Rightarrow> Inr (set (collect results [])))"
proof (cases "gather (map (fetch_fixed_versions_for_ecosystem client nm) ecos)")
  case (Pair posts r)
  then show ?thesis by (cases r) (simp_all add: fetch_fixed_versions_def)
qed

lemma for_ecosystem_posts:
  "fst (fetch_fixed_versions_for_ecosystem client nm eco) = [(OSV_API_URL, make_query nm eco)]"
  by (simp add: fetch_fixed_versions_for_ecosystem_def query_osv_api_def
      split: option.splits sum.splits)

lemma for_ecosystem_answers:
  "answers client nm eco data \<Longrightarrow>
     snd (fetch_fixed_versions_for_ecosystem client nm eco) = Inr (extract_fixed_versions data)"
  by (auto simp: answers_def fetch_fixed_versions_for_ecosystem_def query_osv_api_def
      split: option.splits)

lemma for_ecosystem_fails:
  "query_fails client nm eco \<Longrightarrow>
     isl (snd (fetch_fixed_versions_for_ecosystem client nm eco))"
  by (auto simp: query_fails_def fetch_fixed_versions_for_ecosystem_def query_osv_api_def
      split: option.splits)

lemma for_ecosystem_upstream:
  "snd (fetch_fixed_versions_for_ecosystem client nm eco) = Inl e \<Longrightarrow> upstream_error e"
  by (auto simp: upstream_error_def fetch_fixed_versions_for_ecosystem_def query_osv_api_def
      split: option.splits if_splits)

lemma fetch_posts:
  "fst (fetch_fixed_versions client nm ecos) = map (\<lambda>eco. (OSV_API_URL, make_query nm eco)) ecos"
proof -
  have "fst (fetch_fixed_versions client nm ecos) =
      fst (gather (map (fetch_fixed_versions_for_ecosystem client nm) ecos))"
    by (simp add: fetch_fixed_versions_def split: prod.splits sum.splits)
  also have "\<dots> = concat (map (\<lambda>eco. [(OSV_API_URL, make_query nm eco)]) ecos)"
    by (simp add: gather_posts comp_def for_ecosystem_posts)
  also have "\<dots> = map (\<lambda>eco. (OSV_API_URL, make_query nm eco)) ecos"
    by (induction ecos) simp_all
  finally show ?thesis .
qed

lemma fetch_success:
  assumes "\<forall>eco \<in> set ecos. answers client nm eco (answer eco)"
  shows "snd (fetch_fixed_versions client nm ecos) =
           Inr (\<Union>eco \<in> set ecos. set (extract_fixed_versions (answer eco)))"
proof -
  let ?tasks = "map (fetch_fixed_versions_for_ecosystem client nm) ecos"
  let ?xs = "map (\<lambda>eco. extract_fixed_versions (answer eco)) ecos"
  have "map snd ?tasks = map Inr ?xs"
    using assms by (simp add: for_ecosystem_answers)
  then have "snd (gather ?tasks) = Inr ?xs" by (simp only: gather_Inr)
  then have "snd (fetch_fixed_versions client nm ecos) = Inr (set (collect ?xs []))"
    by (simp add: fetch_result)
  then show ?thesis by (simp add: collect_concat)
qed

lemma fetch_failure:
  assumes "\<exists>eco \<in> set ecos. query_fails client nm eco"
  shows "\<exists>e. snd (fetch_fixed_versions client nm ecos) = Inl e \<and> upstream_error e"
proof -
  let ?tasks = "map (fetch_fixed_versions_for_ecosystem client nm) ecos"
  from assms have "\<exists>t \<in> set ?tasks. isl (snd t)"
    by (auto intro: for_ecosystem_fails)
  then have "isl (snd (gather ?tasks))" by (rule gather_fails)
  then obtain e where e: "snd (gather ?tasks) = Inl e" by (auto simp: isl_def)
  then obtain t where "t \<in> set ?tasks" "snd t = Inl e" by (blast dest: gather_Inl)
  then have "upstream_error e" by (auto dest: for_ecosystem_upstream)
  moreover from e have "snd (fetch_fixed_versions client nm ecos) = Inl e"
    by (simp add: fetch_result)
  ultimately show ?thesis by blast
qed

lemma fetch_Inl_upstream:
  assumes "snd (fetch_fixed_versions client nm ecos) = Inl e"
  shows "upstream_error e"
proof -
  let ?tasks = "map (fetch_fixed_versions_for_ecosystem client nm) ecos"
  from assms have "snd (gather ?tasks) = Inl e"
    by (simp add: fetch_result split: sum.splits)
  then obtain t where "t \<in> set ?tasks" "snd t = Inl e" by (blast dest: gather_Inl)
  then show ?thesis by (auto dest: for_ecosystem_upstream)
qed

lemma fetch_Inr_finite:
  "snd (fetch_fixed_versions client nm ecos) = Inr S \<Longrightarrow> finite S"
  by (auto simp: fetch_result split: sum.splits)

lemma sort_enumeration:
  fixes ys :: "string list"
  shows "distinct ys \<Longrightarrow> set ys = S \<Longrightarrow> sort ys = sorted_list_of_set S"
  by (auto simp: sorted_list_of_set_sort_remdups distinct_remdups_id)

lemma handler_posts:
  "fst (get_fixed_versions now client nm ecos) = fst (fetch_fixed_versions client nm ecos)"
  by (simp add: get_fixed_versions_def split: prod.splits sum.splits)

lemma handler_result:
  "snd (get_fixed_versions now client nm ecos) =
     (case snd (fetch_fixed_versions client nm ecos) of
        Inl e \<Rightarrow> Inl e
      | Inr S \<Rightarrow> if S = {} then Inl (HTTPException 404 ''No fixed versions found'')
                 else Inr \<lparr>name = nm, versions = sorted_list_of_set S, timestamp = now\<rparr>)"
  by (simp add: get_fixed_versions_def split: prod.splits sum.splits)

lemma endpoint_valid:
  "nm \<noteq> [] \<Longrightarrow>
     endpoint now client \<lparr>query_name = Some nm, query_ecosystems = Some ecos\<rparr> =
       (fst (get_fixed_versions now client nm ecos),
        render (snd (get_fixed_versions now client nm ecos)))"
  by (cases nm) (simp_all add: endpoint_def get_default_def split: prod.splits)

lemma render_upstream: "upstream_error e \<Longrightarrow> render (Inl e) = InternalServerError"
  by (cases e) (simp_all add: upstream_error_def)

lemma map_Inr_projr: "map f xs = map Inr ys \<Longrightarrow> map (projr \<circ> f) xs = ys"
  by (induction xs arbitrary: ys) auto

lemma fetch_isl:
  "isl (snd (fetch_fixed_versions client nm ecos)) \<longleftrightarrow>
     (\<exists>eco \<in> set ecos. isl (snd (fetch_fixed_versions_for_ecosystem client nm eco)))"
proof -
  have "isl (snd (fetch_fixed_versions client nm ecos)) =
      isl (snd (gather (map (fetch_fixed_versions_for_ecosystem client nm) ecos)))"
    by (simp add: fetch_result split: sum.splits)
  then show ?thesis by (simp add: gather_isl)
qed

lemma fetch_Inr:
  assumes "snd (fetch_fixed_versions client nm ecos) = Inr S"
  shows "S = (\<Union>eco \<in> set ecos. set (projr (snd (fetch_fixed_versions_for_ecosystem client nm eco))))"
proof -
  let ?tasks = "map (fetch_fixed_versions_for_ecosystem client nm) ecos"
  from assms obtain xs where xs: "snd (gather ?tasks) = Inr xs" and S: "S = set (collect xs [])"
    by (auto simp: fetch_result split: sum.splits)
  from xs have "map snd ?tasks = map Inr xs" by (simp only: gather_Inr)
  then have "map (projr \<circ> snd) ?tasks = xs"
    by (rule map_Inr_projr)
  then have "xs = map (\<lambda>eco. projr (snd (fetch_fixed_versions_for_ecosystem client nm eco))) ecos"
    by (auto simp: comp_def)
  with S show ?thesis by (simp add: collect_concat)
qed

lemma fetch_set_cong:
  assumes "set ecos = set ecos'"
  shows "snd (fetch_fixed_versions client nm ecos) = Inr S \<longleftrightarrow>
         snd (fetch_fixed_versions client nm ecos') = Inr S"
proof -
  have "snd (fetch_fixed_versions client nm xs) = Inr S \<Longrightarrow> set xs = set ys \<Longrightarrow>
        snd (fetch_fixed_versions client nm ys) = Inr S" for xs ys
  proof -
    assume r: "snd (fetch_fixed_versions client nm xs) = Inr S" and eq: "set xs = set ys"
    from r have "\<not> isl (snd (fetch_fixed_versions client nm xs))" by simp
    with eq have "\<not> isl (snd (fetch_fixed_versions client nm ys))" by (simp add: fetch_isl)
    then obtain S' where S': "snd (fetch_fixed_versions client nm ys) = Inr S'"
      by (cases "snd (fetch_fixed_versions client nm ys)") auto
    from fetch_Inr [OF r] fetch_Inr [OF S'] eq have "S' = S" by simp
    with S' show ?thesis by simp
  qed
  from this [of ecos ecos'] this [of ecos' ecos] assms show ?thesis by auto
qed

lemma endpoint_set_cong:
  assumes "set ecos = set ecos'"
  shows "snd (endpoint now client \<lparr>query_name = q, query_ecosystems = Some ecos\<rparr>) =
         snd (endpoint now client \<lparr>query_name = q, query_ecosystems = Some ecos'\<rparr>)"
proof (cases "\<exists>nm. q = Some nm \<and> nm \<noteq> []")
  case False
  then show ?thesis by (cases q) (auto simp: endpoint_def)
next
  case True
  then obtain nm where q: "q = Some nm" and nm: "nm \<noteq> []" by blast
  let ?r = "snd (fetch_fixed_versions client nm ecos)"
  let ?r' = "snd (fetch_fixed_versions client nm ecos')"
  have "render (snd (get_fixed_versions now client nm ecos)) =
        render (snd (get_fixed_versions now client nm ecos'))"
  proof (cases ?r)
    case (Inl e)
    then have "isl ?r'" using assms fetch_isl [of client nm ecos] fetch_isl [of client nm ecos']
      by simp
    then obtain e' where e': "?r' = Inl e'" by (auto simp: isl_def)
    from Inl e' show ?thesis
      by (simp add: handler_result fetch_Inl_upstream render_upstream)
  next
    case (Inr S)
    with fetch_set_cong [OF assms, of client nm S] have "?r' = Inr S" by simp
    with Inr show ?thesis by (simp add: handler_result)
  qed
  with q nm show ?thesis by (simp add: endpoint_valid)
qed

lemma handler_success_sorted:
  assumes "snd (get_fixed_versions now client nm ecos) = Inr resp"
  shows "distinct (versions resp) \<and> sorted (versions resp) \<and> versions resp \<noteq> []"
proof (cases "snd (fetch_fixed_versions client nm ecos)")
  case (Inl e)
  with assms show ?thesis by (simp add: handler_result)
next
  case (Inr S)
  then have fin: "finite S" by (rule fetch_Inr_finite)
  from assms Inr have "S \<noteq> {}" and "versions resp = sorted_list_of_set S"
    by (auto simp: handler_result split: if_splits)
  with fin show ?thesis by simp
qed

lemma render_Success: "render r = Success resp \<longleftrightarrow> r = Inr resp"
proof (cases r)
  case (Inl e)
  then show ?thesis by (cases e) simp_all
next
  case (Inr x)
  then show ?thesis by simp
qed

lemma endpoint_success_sorted:
  assumes "snd (endpoint now client req) = Success resp"
  shows "distinct (versions resp) \<and> sorted (versions resp) \<and> versions resp \<noteq> []"
proof -
  from assms obtain nm where nm: "query_name req = Some nm" "\<not> length nm < 1"
    by (auto simp: endpoint_def split: option.splits if_splits)
  let ?ecos = "get_default (query_ecosystems req) [''Ubuntu'']"
  from assms nm have "render (snd (get_fixed_versions now client nm ?ecos)) = Success resp"
    by (simp add: endpoint_def split: prod.splits)
  then have "snd (get_fixed_versions now client nm ?ecos) = Inr resp"
    by (simp only: render_Success)
  then show ?thesis by (rule handler_success_sorted)
qed

lemma handler_all_answered:
  assumes "\<forall>eco \<in> set ecos. answers client nm eco (answer eco)"
  shows "snd (get_fixed_versions now client nm ecos) =
           (if merged_fixed_versions answer ecos = {}
            then Inl (HTTPException 404 ''No fixed versions found'')
            else Inr \<lparr>name = nm,
                   versions = sorted_list_of_set (merged_fixed_versions answer ecos),
                   timestamp = now\<rparr>)"
  using assms by (simp add: handler_result fetch_success merged_fixed_versions_def)

lemma handler_set_cong:
  assumes "set ecos = set ecos'"
  shows "snd (get_fixed_versions now client nm ecos) = Inr resp \<longleftrightarrow>
         snd (get_fixed_versions now client nm ecos') = Inr resp"
proof -
  have "snd (get_fixed_versions now client nm ys) = Inr resp"
    if r: "snd (get_fixed_versions now client nm xs) = Inr resp" and eq: "set xs = set ys"
    for xs ys
  proof -
    from r obtain S where S: "snd (fetch_fixed_versions client nm xs) = Inr S"
      by (cases "snd (fetch_fixed_versions client nm xs)") (auto simp: handler_result)
    with fetch_set_cong [OF eq, of client nm S]
    have "snd (fetch_fixed_versions client nm ys) = Inr S" by simp
    with r S show ?thesis by (simp add: handler_result)
  qed
  from this [of ecos ecos'] this [of ecos' ecos] assms show ?thesis by auto
qed

lemma endpoint_all_answered:
  assumes "nm \<noteq> []" and "\<forall>eco \<in> set ecos. answers client nm eco (answer eco)"
  shows "snd (endpoint now client \<lparr>query_name = Some nm, query_ecosystems = Some ecos\<rparr>) =
           (if merged_fixed_versions answer ecos = {}
            then ErrorDetail 404 ''No fixed versions found''
            else Success \<lparr>name = nm,
                   versions = sorted_list_of_set (merged_fixed_versions answer ecos),
                   timestamp = now\<rparr>)"
  using assms
  by (simp add: endpoint_valid handler_result fetch_success merged_fixed_versions_def)

text \<open>
  C1: every response the handler returns, and so every success response of the endpoint,
  carries a \<^verbatim>\<open>versions\<close> list without duplicates and sorted ascending in the
  lexicographic order of strings; and when the queries of a request are all answered and
  the merged set of fixed versions is not empty, the handler does return a response,
  whose \<^verbatim>\<open>versions\<close> is the sorted list of exactly that set, and the endpoint answers
  a request with that non-empty name with it.
\<close>

theorem versions_distinct_sorted:
  "(snd (get_fixed_versions now client nm ecos) = Inr resp \<longrightarrow>
      distinct (versions resp) \<and> sorted (versions resp))
   \<and> (snd (endpoint now client req) = Success resp \<longrightarrow>
      distinct (versions resp) \<and> sorted (versions resp))
   \<and> ((\<forall>eco \<in> set ecos. answers client nm eco (answer eco))
        \<and> merged_fixed_versions answer ecos \<noteq> {} \<longrightarrow>
      snd (get_fixed_versions now client nm ecos) =
        Inr \<lparr>name = nm,
          versions = sorted_list_of_set (merged_fixed_versions answer ecos),
          timestamp = now\<rparr>
      \<and> set (sorted_list_of_set (merged_fixed_versions answer ecos)) =
          merged_fixed_versions answer ecos
      \<and> (nm \<noteq> [] \<longrightarrow>
          snd (endpoint now client \<lparr>query_name = Some nm, query_ecosystems = Some ecos\<rparr>) =
            Success \<lparr>name = nm,
              versions = sorted_list_of_set (merged_fixed_versions answer ecos),
              timestamp = now\<rparr>))"
proof -
  have fin: "finite (merged_fixed_versions answer ecos)"
    by (simp add: merged_fixed_versions_def)
  have handler: "snd (get_fixed_versions now client nm ecos) = Inr resp \<longrightarrow>
      distinct (versions resp) \<and> sorted (versions resp)"
    by (simp add: handler_success_sorted)
  have invariant: "snd (endpoint now client req) = Success resp \<longrightarrow>
      distinct (versions resp) \<and> sorted (versions resp)"
    by (simp add: endpoint_success_sorted)
  have success: "snd (get_fixed_versions now client nm ecos) =
        Inr \<lparr>name = nm,
          versions = sorted_list_of_set (merged_fixed_versions answer ecos),
          timestamp = now\<rparr>
      \<and> (nm \<noteq> [] \<longrightarrow>
          snd (endpoint now client \<lparr>query_name = Some nm, query_ecosystems = Some ecos\<rparr>) =
            Success \<lparr>name = nm,
              versions = sorted_list_of_set (merged_fixed_versions answer ecos),
              timestamp = now\<rparr>)"
    if "\<forall>eco \<in> set ecos. answers client nm eco (answer eco)"
      and "merged_fixed_versions answer ecos \<noteq> {}"
    using that by (simp add: endpoint_all_answered handler_all_answered)
  from fin handler invariant success show ?thesis by simp
qed

theorem versions_distinct_sorted_witness:
  "snd (endpoint ''2024-05-01T10:00:00'' sample_client
         \<lparr>query_name = Some ''openssl'',
          query_ecosystems = Some [''Debian'', ''Ubuntu'', ''PyPI'', ''Debian'']\<rparr>) =
     Success \<lparr>name = ''openssl'', versions = [''1.0'', ''2.1'', ''3.0''],
       timestamp = ''2024-05-01T10:00:00''\<rparr>
   \<and> distinct [''1.0'', ''2.1'', ''3.0''] \<and> sorted [''1.0'', ''2.1'', ''3.0'']"
proof -
  let ?ecos = "[''Debian'', ''Ubuntu'', ''PyPI'', ''Debian'']"
  let ?req = "\<lparr>query_name = Some ''openssl'', query_ecosystems = Some ?ecos\<rparr>"
  let ?resp = "\<lparr>name = ''openssl'', versions = [''1.0'', ''2.1'', ''3.0''],
       timestamp = ''2024-05-01T10:00:00''\<rparr>"
  have answered: "\<forall>eco \<in> set ?ecos. answers sample_client ''openssl'' eco (sample_answer eco)"
    by (simp add: answers_def sample_client_def make_query_def is_success_def)
  have merged: "merged_fixed_versions sample_answer ?ecos = set [''2.1'', ''1.0'', ''3.0'']"
    by (auto simp: merged_fixed_versions_def sample_answer_def data_a_def data_b_def
        extract_fixed_versions_def get_default_def)
  have sorted: "sorted_list_of_set (set [''2.1'', ''1.0'', ''3.0'']) = [''1.0'', ''2.1'', ''3.0'']"
    by (simp add: sorted_list_of_set_sort_remdups)
  from versions_distinct_sorted
    [of "''2024-05-01T10:00:00''" sample_client "''openssl''" ?ecos ?resp ?req sample_answer]
    answered merged sorted
  show ?thesis by simp
qed

text \<open>
  C2: when every query of a request with a non-empty name is answered and the merged set
  of fixed versions is empty, the handler raises \<^verbatim>\<open>HTTPException(404)\<close> with the detail
  \<^verbatim>\<open>No fixed versions found\<close> and the endpoint answers 404 with that detail; and no
  success response of the endpoint, on any request, has an empty \<^verbatim>\<open>versions\<close> list.
\<close>

theorem empty_result_not_found:
  "(nm \<noteq> [] \<and> (\<forall>eco \<in> set ecos. answers client nm eco (answer eco))
      \<and> merged_fixed_versions answer ecos = {} \<longrightarrow>
      snd (get_fixed_versions now client nm ecos) =
        Inl (HTTPException 404 ''No fixed versions found'')
      \<and> snd (endpoint now client \<lparr>query_name = Some nm, query_ecosystems = Some ecos\<rparr>) =
          ErrorDetail 404 ''No fixed versions found''
      \<and> status_of (snd (endpoint now client
            \<lparr>query_name = Some nm, query_ecosystems = Some ecos\<rparr>)) = 404)
   \<and> (snd (endpoint now client req) = Success resp \<longrightarrow> versions resp \<noteq> [])"
proof -
  have not_found: "snd (get_fixed_versions now client nm ecos) =
        Inl (HTTPException 404 ''No fixed versions found'')
      \<and> snd (endpoint now client \<lparr>query_name = Some nm, query_ecosystems = Some ecos\<rparr>) =
          ErrorDetail 404 ''No fixed versions found''"
    if "nm \<noteq> []" and "\<forall>eco \<in> set ecos. answers client nm eco (answer eco)"
      and "merged_fixed_versions answer ecos = {}"
  proof -
    from that(2) have "snd (fetch_fixed_versions client nm ecos) =
        Inr (merged_fixed_versions answer ecos)"
      by (simp add: fetch_success merged_fixed_versions_def)
    with that(3) have "snd (get_fixed_versions now client nm ecos) =
        Inl (HTTPException 404 ''No fixed versions found'')"
      by (simp add: handler_result)
    with that(1) show ?thesis by (simp add: endpoint_valid)
  qed
  have never_empty: "snd (endpoint now client req) = Success resp \<longrightarrow> versions resp \<noteq> []"
    by (simp add: endpoint_success_sorted)
  from not_found never_empty show ?thesis by simp
qed

theorem empty_result_not_found_witness:
  "snd (endpoint ''2024-05-01T10:00:00'' sample_client
         \<lparr>query_name = Some ''left-pad'', query_ecosystems = Some [''PyPI'', ''Go'']\<rparr>) =
     ErrorDetail 404 ''No fixed versions found''
   \<and> snd (endpoint ''2024-05-01T10:00:00'' sample_client
         \<lparr>query_name = Some ''left-pad'', query_ecosystems = Some [''Ubuntu'']\<rparr>) =
     Success \<lparr>name = ''left-pad'', versions = [''1.0'', ''2.1''],
       timestamp = ''2024-05-01T10:00:00''\<rparr>
   \<and> [''1.0'', ''2.1''] \<noteq> []"
proof -
  let ?now = "''2024-05-01T10:00:00''"
  let ?ecos = "[''PyPI'', ''Go'']"
  let ?req = "\<lparr>query_name = Some ''left-pad'', query_ecosystems = Some [''Ubuntu'']\<rparr>"
  let ?resp = "\<lparr>name = ''left-pad'', versions = [''1.0'', ''2.1''], timestamp = ?now\<rparr>"
  have answered: "\<forall>eco \<in> set ?ecos. answers sample_client ''left-pad'' eco (sample_answer eco)"
    by (simp add: answers_def sample_client_def make_query_def is_success_def)
  have merged: "merged_fixed_versions sample_answer ?ecos = {}"
    by (simp add: merged_fixed_versions_def sample_answer_def extract_fixed_versions_def
        get_default_def)
  have ubuntu: "snd (endpoint ?now sample_client ?req) = Success ?resp"
    by (simp add: endpoint_def get_fixed_versions_def fetch_fixed_versions_def
        fetch_fixed_versions_for_ecosystem_def query_osv_api_def sample_client_def
        make_query_def is_success_def sample_answer_def data_a_def extract_fixed_versions_def
        get_default_def sorted_list_of_set_sort_remdups)
  from empty_result_not_found
    [of "''left-pad''" ?ecos sample_client sample_answer ?now ?req ?resp]
    answered merged ubuntu
  show ?thesis by simp
qed


text \<open>
  C4: when the outbound call fails for one of the requested ecosystems (the transport
  raises, or the status is no success), the aggregator fails with an exception of the
  outbound call, whatever the other ecosystems answer; the handler fails with the same
  exception, unchanged; and the endpoint answers a request with that name and those
  ecosystems with the server error, never with versions.
\<close>

theorem any_failure_fails_whole_request:
  assumes "\<exists>eco \<in> set ecos. query_fails client nm eco"
  shows "\<exists>e. upstream_error e
          \<and> snd (fetch_fixed_versions client nm ecos) = Inl e
          \<and> snd (get_fixed_versions now client nm ecos) = Inl e
          \<and> (nm \<noteq> [] \<longrightarrow>
               snd (endpoint now client \<lparr>query_name = Some nm, query_ecosystems = Some ecos\<rparr>) =
                 InternalServerError)"
proof -
  from fetch_failure [OF assms] obtain e
    where e: "snd (fetch_fixed_versions client nm ecos) = Inl e" "upstream_error e"
    by blast
  then have h: "snd (get_fixed_versions now client nm ecos) = Inl e"
    by (simp add: handler_result)
  with e(2) have "nm \<noteq> [] \<longrightarrow>
      snd (endpoint now client \<lparr>query_name = Some nm, query_ecosystems = Some ecos\<rparr>) =
        InternalServerError"
    by (simp add: endpoint_valid render_upstream)
  with e h show ?thesis by blast
qed

theorem any_failure_fails_whole_request_witness:
  "query_fails sample_client ''openssl'' ''npm''
   \<and> answers sample_client ''openssl'' ''Ubuntu'' data_a
   \<and> snd (get_fixed_versions ''2024-05-01T10:00:00'' sample_client ''openssl''
         [''Ubuntu'', ''npm'', ''Debian'']) = Inl (HTTPStatusError 503)
   \<and> snd (endpoint ''2024-05-01T10:00:00'' sample_client
         \<lparr>query_name = Some ''openssl'',
          query_ecosystems = Some [''Ubuntu'', ''npm'', ''Debian'']\<rparr>) = InternalServerError"
proof -
  let ?ecos = "[''Ubuntu'', ''npm'', ''Debian'']"
  have fails: "query_fails sample_client ''openssl'' ''npm''"
    by (simp add: query_fails_def sample_client_def make_query_def is_success_def)
  then have some: "\<exists>eco \<in> set ?ecos. query_fails sample_client ''openssl'' eco"
    by simp
  have ubuntu: "answers sample_client ''openssl'' ''Ubuntu'' data_a"
    by (simp add: answers_def sample_client_def make_query_def is_success_def
        sample_answer_def)
  have which: "snd (fetch_fixed_versions sample_client ''openssl'' ?ecos) =
      Inl (HTTPStatusError 503)"
    by (simp add: fetch_fixed_versions_def fetch_fixed_versions_for_ecosystem_def
        query_osv_api_def sample_client_def make_query_def is_success_def)
  from any_failure_fails_whole_request [OF some, of "''2024-05-01T10:00:00''"] which fails ubuntu
  show ?thesis by auto
qed

text \<open>
  C5: for a package queried over two ecosystems whose answers hold the fixed versions
  2.1, 1.0 and 1.0, 3.0, the handler returns the versions 1.0, 2.1, 3.0, and so does the
  endpoint when the name is not empty: the version found in both ecosystems appears
  once, and the list is ascending.
\<close>

theorem two_ecosystems_example:
  assumes "answers client nm ecoA dataA" and "answers client nm ecoB dataB"
    and "set (extract_fixed_versions dataA) = {''2.1'', ''1.0''}"
    and "set (extract_fixed_versions dataB) = {''1.0'', ''3.0''}"
  shows "snd (get_fixed_versions now client nm [ecoA, ecoB]) =
           Inr \<lparr>name = nm, versions = [''1.0'', ''2.1'', ''3.0''], timestamp = now\<rparr>
         \<and> (nm \<noteq> [] \<longrightarrow>
              snd (endpoint now client
                    \<lparr>query_name = Some nm, query_ecosystems = Some [ecoA, ecoB]\<rparr>) =
                Success \<lparr>name = nm, versions = [''1.0'', ''2.1'', ''3.0''], timestamp = now\<rparr>)"
proof -
  define answer where "answer = (\<lambda>eco. if eco = ecoA then dataA else dataB)"
  have same: "dataB = dataA" if "ecoB = ecoA"
    using that assms(1,2) by (auto simp: answers_def split: option.splits)
  have "answers client nm ecoA (answer ecoA)" "answers client nm ecoB (answer ecoB)"
    using assms(1,2) same by (auto simp: answer_def)
  then have all: "\<forall>eco \<in> set [ecoA, ecoB]. answers client nm eco (answer eco)"
    by simp
  have "merged_fixed_versions answer [ecoA, ecoB] =
      set (extract_fixed_versions dataA) \<union> set (extract_fixed_versions dataB)"
    using same by (auto simp: merged_fixed_versions_def answer_def)
  with assms(3,4) have merged:
    "merged_fixed_versions answer [ecoA, ecoB] = set [''2.1'', ''1.0'', ''1.0'', ''3.0'']"
    by auto
  have sorted: "sorted_list_of_set (set [''2.1'', ''1.0'', ''1.0'', ''3.0'']) =
      [''1.0'', ''2.1'', ''3.0'']"
    by (simp add: sorted_list_of_set_sort_remdups)
  have nonempty: "set [''2.1'', ''1.0'', ''1.0'', ''3.0''] \<noteq> {}"
    by simp
  have handler: "snd (get_fixed_versions now client nm [ecoA, ecoB]) =
      Inr \<lparr>name = nm, versions = [''1.0'', ''2.1'', ''3.0''], timestamp = now\<rparr>"
    unfolding handler_all_answered [OF all, of now] merged sorted
    using nonempty by simp
  then show ?thesis by (simp add: endpoint_valid)
qed

theorem two_ecosystems_example_witness:
  "snd (endpoint ''2024-05-01T10:00:00'' sample_client
         \<lparr>query_name = Some ''curl'', query_ecosystems = Some [''Ubuntu'', ''Debian'']\<rparr>) =
     Success \<lparr>name = ''curl'', versions = [''1.0'', ''2.1'', ''3.0''],
       timestamp = ''2024-05-01T10:00:00''\<rparr>
   \<and> extract_fixed_versions data_a = [''2.1'', ''1.0'']
   \<and> extract_fixed_versions data_b = [''1.0'', ''3.0'', ''1.0'']"
proof -
  have name: "''curl'' \<noteq> []" by simp
  have a: "answers sample_client ''curl'' ''Ubuntu'' data_a"
    by (simp add: answers_def sample_client_def make_query_def is_success_def
        sample_answer_def)
  have b: "answers sample_client ''curl'' ''Debian'' data_b"
    by (simp add: answers_def sample_client_def make_query_def is_success_def
        sample_answer_def)
  have xa: "extract_fixed_versions data_a = [''2.1'', ''1.0'']"
    by (simp add: data_a_def extract_fixed_versions_def get_default_def)
  have xb: "extract_fixed_versions data_b = [''1.0'', ''3.0'', ''1.0'']"
    by (simp add: data_b_def extract_fixed_versions_def get_default_def)
  have sa: "set (extract_fixed_versions data_a) = {''2.1'', ''1.0''}"
    by (simp add: xa)
  have sb: "set (extract_fixed_versions data_b) = {''1.0'', ''3.0''}"
    by (auto simp: xb)
  from two_ecosystems_example [OF a b sa sb, of "''2024-05-01T10:00:00''"] name xa xb
  show ?thesis by simp
qed

text \<open>
  C6: a request without the \<^verbatim>\<open>ecosystems\<close> parameter is processed as the same request
  with the ecosystem list \<^verbatim>\<open>["Ubuntu"]\<close>: both give the same posts and the same response,
  the one query posted is the query for Ubuntu, and the response is the handler's on the
  list \<^verbatim>\<open>["Ubuntu"]\<close>.
\<close>

theorem default_ecosystems:
  "endpoint now client \<lparr>query_name = q, query_ecosystems = None\<rparr> =
     endpoint now client \<lparr>query_name = q, query_ecosystems = Some [''Ubuntu'']\<rparr>
   \<and> fst (endpoint now client \<lparr>query_name = Some (c # cs), query_ecosystems = None\<rparr>) =
       [(OSV_API_URL, make_query (c # cs) ''Ubuntu'')]
   \<and> snd (endpoint now client \<lparr>query_name = Some (c # cs), query_ecosystems = None\<rparr>) =
       render (snd (get_fixed_versions now client (c # cs) [''Ubuntu'']))"
proof -
  have default: "endpoint now client \<lparr>query_name = p, query_ecosystems = None\<rparr> =
      endpoint now client \<lparr>query_name = p, query_ecosystems = Some [''Ubuntu'']\<rparr>" for p
    by (cases p) (simp_all add: endpoint_def get_default_def)
  have "endpoint now client \<lparr>query_name = Some (c # cs), query_ecosystems = Some [''Ubuntu'']\<rparr> =
      (fst (get_fixed_versions now client (c # cs) [''Ubuntu'']),
       render (snd (get_fixed_versions now client (c # cs) [''Ubuntu''])))"
    by (rule endpoint_valid) simp
  then have "endpoint now client \<lparr>query_name = Some (c # cs), query_ecosystems = None\<rparr> =
      ([(OSV_API_URL, make_query (c # cs) ''Ubuntu'')],
       render (snd (get_fixed_versions now client (c # cs) [''Ubuntu''])))"
    by (simp add: default handler_posts fetch_posts)
  with default [of q] show ?thesis by simp
qed

text \<open>
  C7: for two ecosystem lists that are permutations of each other, and the same client,
  the endpoint gives the same response and the handler returns the same response, so
  the same \<^verbatim>\<open>versions\<close> list; the aggregator returns the same merged set for both, and
  fails for one exactly when it fails for the other.
\<close>

theorem permutation_invariance:
  assumes "mset ecos = mset ecos'"
  shows "snd (endpoint now client \<lparr>query_name = q, query_ecosystems = Some ecos\<rparr>) =
           snd (endpoint now client \<lparr>query_name = q, query_ecosystems = Some ecos'\<rparr>)
         \<and> (snd (get_fixed_versions now client nm ecos) = Inr resp \<longleftrightarrow>
              snd (get_fixed_versions now client nm ecos') = Inr resp)
         \<and> (snd (fetch_fixed_versions client nm ecos) = Inr S \<longleftrightarrow>
              snd (fetch_fixed_versions client nm ecos') = Inr S)
         \<and> (isl (snd (fetch_fixed_versions client nm ecos)) \<longleftrightarrow>
              isl (snd (fetch_fixed_versions client nm ecos')))"
proof -
  from assms have eq: "set ecos = set ecos'" by (rule mset_eq_setD)
  from eq have "snd (endpoint now client \<lparr>query_name = q, query_ecosystems = Some ecos\<rparr>) =
      snd (endpoint now client \<lparr>query_name = q, query_ecosystems = Some ecos'\<rparr>)"
    by (rule endpoint_set_cong)
  moreover from eq have "snd (get_fixed_versions now client nm ecos) = Inr resp \<longleftrightarrow>
      snd (get_fixed_versions now client nm ecos') = Inr resp"
    by (rule handler_set_cong)
  moreover from eq have "snd (fetch_fixed_versions client nm ecos) = Inr S \<longleftrightarrow>
      snd (fetch_fixed_versions client nm ecos') = Inr S"
    by (rule fetch_set_cong)
  moreover from eq have "isl (snd (fetch_fixed_versions client nm ecos)) \<longleftrightarrow>
      isl (snd (fetch_fixed_versions client nm ecos'))"
    by (simp add: fetch_isl)
  ultimately show ?thesis by simp
qed

theorem permutation_invariance_witness:
  "mset [''Ubuntu'', ''PyPI'', ''Debian''] = mset [''Debian'', ''Ubuntu'', ''PyPI'']
   \<and> snd (endpoint ''2024-05-01T10:00:00'' sample_client
         \<lparr>query_name = Some ''zlib'',
          query_ecosystems = Some [''Ubuntu'', ''PyPI'', ''Debian'']\<rparr>) =
       Success \<lparr>name = ''zlib'', versions = [''1.0'', ''2.1'', ''3.0''],
         timestamp = ''2024-05-01T10:00:00''\<rparr>
   \<and> snd (endpoint ''2024-05-01T10:00:00'' sample_client
         \<lparr>query_name = Some ''zlib'',
          query_ecosystems = Some [''Debian'', ''Ubuntu'', ''PyPI'']\<rparr>) =
       Success \<lparr>name = ''zlib'', versions = [''1.0'', ''2.1'', ''3.0''],
         timestamp = ''2024-05-01T10:00:00''\<rparr>"
proof -
  have perm: "mset [''Ubuntu'', ''PyPI'', ''Debian''] = mset [''Debian'', ''Ubuntu'', ''PyPI'']"
    by (simp add: add.commute)
  let ?ecos = "[''Ubuntu'', ''PyPI'', ''Debian'']"
  have answered: "\<forall>eco \<in> set ?ecos. answers sample_client ''zlib'' eco (sample_answer eco)"
    by (simp add: answers_def sample_client_def make_query_def is_success_def)
  have merged: "merged_fixed_versions sample_answer ?ecos = set [''2.1'', ''1.0'', ''3.0'']"
    by (auto simp: merged_fixed_versions_def sample_answer_def data_a_def data_b_def
        extract_fixed_versions_def get_default_def)
  have sorted: "sorted_list_of_set (set [''2.1'', ''1.0'', ''3.0'']) = [''1.0'', ''2.1'', ''3.0'']"
    by (simp add: sorted_list_of_set_sort_remdups)
  have nonempty: "set [''2.1'', ''1.0'', ''3.0''] \<noteq> {}"
    by simp
  have first: "snd (endpoint ''2024-05-01T10:00:00'' sample_client
         \<lparr>query_name = Some ''zlib'', query_ecosystems = Some ?ecos\<rparr>) =
       Success \<lparr>name = ''zlib'', versions = [''1.0'', ''2.1'', ''3.0''],
         timestamp = ''2024-05-01T10:00:00''\<rparr>"
    unfolding endpoint_all_answered [of "''zlib''", simplified, OF answered] merged sorted
    using nonempty by simp
  from permutation_invariance [OF perm, of "''2024-05-01T10:00:00''" sample_client "Some ''zlib''"]
    perm first
  show ?thesis by simp
qed

text \<open>
  C8: a request whose \<^verbatim>\<open>name\<close> parameter is missing or empty gets the validation error
  (status 422) and no query is posted, whatever the client and the ecosystems; a request
  with a non-empty name posts one query per requested ecosystem.
\<close>

theorem invalid_name_rejected:
  "endpoint now client \<lparr>query_name = None, query_ecosystems = es\<rparr> = ([], ValidationError)
   \<and> endpoint now client \<lparr>query_name = Some [], query_ecosystems = es\<rparr> = ([], ValidationError)
   \<and> status_of ValidationError = 422
   \<and> fst (endpoint now client \<lparr>query_name = Some (c # cs), query_ecosystems = Some ecos\<rparr>) =
       map (\<lambda>eco. (OSV_API_URL, make_query (c # cs) eco)) ecos"
proof -
  have "endpoint now client \<lparr>query_name = Some (c # cs), query_ecosystems = Some ecos\<rparr> =
      (fst (get_fixed_versions now client (c # cs) ecos),
       render (snd (get_fixed_versions now client (c # cs) ecos)))"
    by (rule endpoint_valid) simp
  then show ?thesis
    by (simp add: endpoint_def handler_posts fetch_posts)
qed

end
